theory Spec2Isabelle
  imports Main "HOL-Library.AList" "HOL-Library.Char_ord" "HOL-Library.List_Lexorder"
begin

section \<open>The service-provider registry of samlidp (service.go)\<close>

text \<open>
  The registry keeps every service provider twice: as a durable record in the Store, under
  the key \<open>/services/{name}\<close>, and in the in-memory map \<open>serviceProviders\<close>, keyed by the
  entity ID of the metadata. The model is sequential: the mutex \<open>idpConfigMu\<close> and the logger
  have no effect on the values computed and are left out.
\<close>

subsection \<open>Data\<close>

text \<open>
  \<open>saml.EntityDescriptor\<close>: the registry reads the field \<open>EntityID\<close> only; every other field
  of the descriptor is carried along unread, as \<open>Rest\<close>.
\<close>

record EntityDescriptor =
  EntityID :: string
  Rest :: string

record Service =
  Name :: string
  Metadata :: EntityDescriptor

text \<open>The errors of the store, and the errors and HTTP statuses the registry answers with.\<close>

datatype store_error = ErrNotFound | ErrStorage | ErrDecode

datatype error =
    InvalidService                   \<comment> \<open>\<open>fmt.Errorf("invalid service")\<close>\<close>
  | FailedToStoreService store_error \<comment> \<open>\<open>fmt.Errorf("failed to store service: %v", err)\<close>\<close>
  | ErrNotExist                      \<comment> \<open>\<open>os.ErrNotExist\<close>\<close>
  | StoreFailure store_error         \<comment> \<open>an error of the store, returned as it is\<close>

abbreviation StatusNoContent :: nat where "StatusNoContent \<equiv> 204"
abbreviation StatusBadRequest :: nat where "StatusBadRequest \<equiv> 400"
abbreviation StatusInternalServerError :: nat where "StatusInternalServerError \<equiv> 500"

subsection \<open>The durable store\<close>

text \<open>
  Modelled from the spec: the Durable Store behind the field \<open>s.Store\<close>, of which the source
  holds the calls only (\<open>Put\<close>, \<open>Get\<close>, \<open>List\<close>, \<open>Delete\<close>). It is a mapping from key to
  serialised record; a serialised record either decodes to a \<open>Service\<close> or does not. Every
  call may fail with an opaque storage error: the field \<open>faults\<close> is the schedule of these
  failures, one entry consumed by each call (\<open>True\<close>: this call fails), and no entry left
  means no failure. \<open>List\<close> answers the names under a prefix in key order.
\<close>

datatype blob = Encoded Service | Garbage

record store =
  objects :: "(string \<times> blob) list"
  faults :: "bool list"

definition next_call :: "store \<Rightarrow> bool \<times> store" where
  "next_call st =
     (case faults st of
        [] \<Rightarrow> (False, st)
      | f # fs \<Rightarrow> (f, st\<lparr>faults := fs\<rparr>))"

definition Store_Put :: "store \<Rightarrow> string \<Rightarrow> Service \<Rightarrow> store_error option \<times> store" where
  "Store_Put st key v =
     (case next_call st of
        (True, st') \<Rightarrow> (Some ErrStorage, st')
      | (False, st') \<Rightarrow> (None, st'\<lparr>objects := AList.update key (Encoded v) (objects st')\<rparr>))"

definition Store_Get :: "store \<Rightarrow> string \<Rightarrow> (store_error + Service) \<times> store" where
  "Store_Get st key =
     (case next_call st of
        (True, st') \<Rightarrow> (Inl ErrStorage, st')
      | (False, st') \<Rightarrow>
          (case map_of (objects st') key of
             None \<Rightarrow> (Inl ErrNotFound, st')
           | Some Garbage \<Rightarrow> (Inl ErrDecode, st')
           | Some (Encoded v) \<Rightarrow> (Inr v, st')))"

definition names_under :: "string \<Rightarrow> (string \<times> blob) list \<Rightarrow> string list" where
  "names_under p kvs =
     map (drop (length p)) (sort (filter (\<lambda>k. take (length p) k = p) (map fst kvs)))"

definition Store_List :: "store \<Rightarrow> string \<Rightarrow> (store_error + string list) \<times> store" where
  "Store_List st p =
     (case next_call st of
        (True, st') \<Rightarrow> (Inl ErrStorage, st')
      | (False, st') \<Rightarrow> (Inr (names_under p (objects st')), st'))"

definition Store_Delete :: "store \<Rightarrow> string \<Rightarrow> store_error option \<times> store" where
  "Store_Delete st key =
     (case next_call st of
        (True, st') \<Rightarrow> (Some ErrStorage, st')
      | (False, st') \<Rightarrow>
          (case map_of (objects st') key of
             None \<Rightarrow> (Some ErrNotFound, st')
           | Some _ \<Rightarrow> (None, st'\<lparr>objects := AList.delete key (objects st')\<rparr>)))"

subsection \<open>The server and its operations\<close>

record server =
  Store :: store
  serviceProviders :: "string \<rightharpoonup> EntityDescriptor"

text \<open>\<open>fmt.Sprintf("/services/%s", name)\<close>\<close>

definition service_key :: "string \<Rightarrow> string" where
  "service_key name = ''/services/'' @ name"

text \<open>
  \<open>AddService\<close>: the argument is a pointer, \<open>None\<close> is \<open>nil\<close>. The result is the error
  returned (\<open>None\<close> is \<open>nil\<close>) and the server afterwards.

  The source indexes \<open>&service.Metadata\<close>, a pointer into the struct of the caller; the
  model indexes the metadata that this struct holds when \<open>AddService\<close> is called. An index
  entry of the model is therefore what the entry of the program points to for as long as
  the caller leaves the registered struct alone. A caller that changes the struct afterwards,
  for instance to register it once more under another entity ID, changes what the earlier
  entry points to, and the model does not follow that. So of an entry that an earlier
  registration wrote, a property about a later registration may state that the entry is
  present, and not what it holds.
\<close>

definition AddService :: "server \<Rightarrow> Service option \<Rightarrow> error option \<times> server" where
  "AddService s service =
     (case service of
        None \<Rightarrow> (Some InvalidService, s)
      | Some svc \<Rightarrow>
          if EntityID (Metadata svc) = [] then (Some InvalidService, s)
          else
            (case Store_Put (Store s) (service_key (Name svc)) svc of
               (Some err, st') \<Rightarrow> (Some (FailedToStoreService err), s\<lparr>Store := st'\<rparr>)
             | (None, st') \<Rightarrow>
                 (None, s\<lparr>Store := st',
                          serviceProviders :=
                            (serviceProviders s)(EntityID (Metadata svc) \<mapsto> Metadata svc)\<rparr>)))"

definition GetServiceProvider :: "server \<Rightarrow> string \<Rightarrow> error + EntityDescriptor" where
  "GetServiceProvider s serviceProviderID =
     (case serviceProviders s serviceProviderID of
        None \<Rightarrow> Inl ErrNotExist
      | Some rv \<Rightarrow> Inr rv)"

text \<open>
  \<open>HandlePutService\<close>: \<open>getSPMetadata\<close>, the decoder of the request body, is not part of the
  source file and is a parameter (\<open>None\<close>: the body does not parse). The stored \<open>Service\<close> is
  the zero value with only \<open>Metadata\<close> set, so its \<open>Name\<close> is empty. The result is the HTTP
  status written and the server afterwards.
\<close>

definition HandlePutService ::
  "(string \<Rightarrow> EntityDescriptor option) \<Rightarrow> server \<Rightarrow> string \<Rightarrow> string \<Rightarrow> nat \<times> server" where
  "HandlePutService getSPMetadata s ident body =
     (case getSPMetadata body of
        None \<Rightarrow> (StatusBadRequest, s)
      | Some metadata \<Rightarrow>
          (case Store_Put (Store s) (service_key ident) \<lparr>Name = [], Metadata = metadata\<rparr> of
             (Some err, st') \<Rightarrow> (StatusInternalServerError, s\<lparr>Store := st'\<rparr>)
           | (None, st') \<Rightarrow>
               (StatusNoContent,
                s\<lparr>Store := st',
                  serviceProviders := (serviceProviders s)(EntityID metadata \<mapsto> metadata)\<rparr>)))"

definition HandleDeleteService :: "server \<Rightarrow> string \<Rightarrow> nat \<times> server" where
  "HandleDeleteService s ident =
     (case Store_Get (Store s) (service_key ident) of
        (Inl err, st') \<Rightarrow> (StatusInternalServerError, s\<lparr>Store := st'\<rparr>)
      | (Inr service, st') \<Rightarrow>
          (case Store_Delete st' (service_key ident) of
             (Some err, st'') \<Rightarrow> (StatusInternalServerError, s\<lparr>Store := st''\<rparr>)
           | (None, st'') \<Rightarrow>
               (StatusNoContent,
                s\<lparr>Store := st'',
                  serviceProviders := (serviceProviders s)(EntityID (Metadata service) := None)\<rparr>)))"

text \<open>The loop of \<open>initializeServices\<close> over the listed names, and the function itself.\<close>

fun load_services :: "server \<Rightarrow> string list \<Rightarrow> error option \<times> server" where
  "load_services s [] = (None, s)"
| "load_services s (serviceName # serviceNames) =
     (case Store_Get (Store s) (service_key serviceName) of
        (Inl err, st') \<Rightarrow> (Some (StoreFailure err), s\<lparr>Store := st'\<rparr>)
      | (Inr service, st') \<Rightarrow>
          load_services
            (s\<lparr>Store := st',
               serviceProviders :=
                 (serviceProviders s)(EntityID (Metadata service) \<mapsto> Metadata service)\<rparr>)
            serviceNames)"

definition initializeServices :: "server \<Rightarrow> error option \<times> server" where
  "initializeServices s =
     (case Store_List (Store s) ''/services/'' of
        (Inl err, st') \<Rightarrow> (Some (StoreFailure err), s\<lparr>Store := st'\<rparr>)
      | (Inr serviceNames, st') \<Rightarrow> load_services (s\<lparr>Store := st'\<rparr>) serviceNames)"

subsection \<open>Notions used to state the properties\<close>

text \<open>
  The index entry of a stored service, and the durable set: the entries of the records that
  the store holds, decodable, under a key with the prefix \<open>/services/\<close>.
\<close>

definition entry :: "Service \<Rightarrow> string \<times> EntityDescriptor" where
  "entry r = (EntityID (Metadata r), Metadata r)"

definition durable_entries :: "store \<Rightarrow> (string \<times> EntityDescriptor) set" where
  "durable_entries st =
     set (concat (map (\<lambda>k. case map_of (objects st) k of
                                Some (Encoded r) \<Rightarrow> [entry r]
                              | _ \<Rightarrow> [])
                      (filter (\<lambda>k. take (length ''/services/'') k = ''/services/'')
                              (map fst (objects st)))))"

text \<open>No call of the store is scheduled to fail.\<close>

definition no_faults :: "store \<Rightarrow> bool" where
  "no_faults st = (True \<notin> set (faults st))"

subsection \<open>Example data\<close>

abbreviation md1 :: EntityDescriptor where "md1 \<equiv> \<lparr>EntityID = ''E1'', Rest = ''cert1''\<rparr>"
abbreviation md1' :: EntityDescriptor where "md1' \<equiv> \<lparr>EntityID = ''E1'', Rest = ''other''\<rparr>"
abbreviation md2 :: EntityDescriptor where "md2 \<equiv> \<lparr>EntityID = ''E2'', Rest = ''cert2''\<rparr>"
abbreviation acme1 :: Service where "acme1 \<equiv> \<lparr>Name = ''acme'', Metadata = md1\<rparr>"
abbreviation acme2 :: Service where "acme2 \<equiv> \<lparr>Name = ''acme'', Metadata = md2\<rparr>"
abbreviation svc_a :: Service where "svc_a \<equiv> \<lparr>Name = ''a'', Metadata = md1\<rparr>"
abbreviation svc_b :: Service where "svc_b \<equiv> \<lparr>Name = ''b'', Metadata = md2\<rparr>"
abbreviation svc_b' :: Service where "svc_b' \<equiv> \<lparr>Name = ''b'', Metadata = md1'\<rparr>"

text \<open>A decoder that accepts one document, and one that reads a descriptor without entity ID.\<close>

abbreviation decode_E2 :: "string \<Rightarrow> EntityDescriptor option" where
  "decode_E2 \<equiv> \<lambda>b. if b = ''<E2/>'' then Some md2 else None"
abbreviation decode_no_id :: "string \<Rightarrow> EntityDescriptor option" where
  "decode_no_id \<equiv> \<lambda>b. Some \<lparr>EntityID = [], Rest = b\<rparr>"

abbreviation empty_server :: server where
  "empty_server \<equiv> \<lparr>Store = \<lparr>objects = [], faults = []\<rparr>, serviceProviders = Map.empty\<rparr>"

abbreviation acme1_store :: "bool list \<Rightarrow> store" where
  "acme1_store fs \<equiv> \<lparr>objects = [(''/services/acme'', Encoded acme1)], faults = fs\<rparr>"
abbreviation acme1_server :: "bool list \<Rightarrow> server" where
  "acme1_server fs \<equiv> \<lparr>Store = acme1_store fs, serviceProviders = [''E1'' \<mapsto> md1]\<rparr>"

abbreviation two_store :: store where
  "two_store \<equiv>
     \<lparr>objects = [(''/services/b'', Encoded svc_b), (''/services/a'', Encoded svc_a)],
      faults = []\<rparr>"
abbreviation corrupt_store :: store where
  "corrupt_store \<equiv>
     \<lparr>objects = [(''/services/a'', Encoded svc_a), (''/services/b'', Garbage),
                 (''/services/c'', Encoded svc_b)],
      faults = []\<rparr>"
abbreviation clash_store :: store where
  "clash_store \<equiv>
     \<lparr>objects = [(''/services/a'', Encoded svc_a), (''/services/b'', Encoded svc_b')],
      faults = []\<rparr>"

section \<open>Auxiliary facts\<close>

subsection \<open>The store calls and the single operations\<close>

lemma objects_next_call: "objects (snd (next_call st)) = objects st"
  by (simp add: next_call_def split: list.splits)

lemma Store_Put_ok:
  "Store_Put st key v = (None, st') \<Longrightarrow>
     map_of (objects st') = (map_of (objects st))(key \<mapsto> Encoded v)"
  by (auto simp: Store_Put_def next_call_def update_conv' split: list.splits bool.splits if_splits)

lemma Store_Get_objects: "objects (snd (Store_Get st key)) = objects st"
  by (auto simp: Store_Get_def next_call_def split: list.splits bool.splits option.splits blob.splits)

lemma Store_Get_ok:
  "Store_Get st key = (Inr v, st') \<Longrightarrow> map_of (objects st) key = Some (Encoded v)"
  by (auto simp: Store_Get_def next_call_def split: list.splits bool.splits option.splits blob.splits if_splits)

lemma Store_Get_no_fault:
  "\<not> fst (next_call st) \<Longrightarrow>
     fst (Store_Get st key) =
       (case map_of (objects st) key of
          None \<Rightarrow> Inl ErrNotFound | Some Garbage \<Rightarrow> Inl ErrDecode | Some (Encoded v) \<Rightarrow> Inr v)"
  by (auto simp: Store_Get_def next_call_def split: list.splits bool.splits option.splits blob.splits)

lemma Store_Delete_ok:
  "Store_Delete st key = (None, st') \<Longrightarrow>
     map_of (objects st') = (map_of (objects st))(key := None)"
  by (auto simp: Store_Delete_def next_call_def delete_conv' split: list.splits bool.splits option.splits if_splits)

lemma AddService_ok:
  assumes "AddService s (Some svc) = (None, s')"
  shows "serviceProviders s' = (serviceProviders s)(EntityID (Metadata svc) \<mapsto> Metadata svc)"
    and "map_of (objects (Store s')) =
           (map_of (objects (Store s)))(service_key (Name svc) \<mapsto> Encoded svc)"
    and "EntityID (Metadata svc) \<noteq> []"
  using assms
  by (auto simp: AddService_def dest: Store_Put_ok split: if_splits prod.splits option.splits)

lemma HandlePutService_ok:
  assumes "HandlePutService dec s ident body = (StatusNoContent, s')"
  shows "\<exists>md. dec body = Some md
           \<and> serviceProviders s' = (serviceProviders s)(EntityID md \<mapsto> md)
           \<and> map_of (objects (Store s')) =
                (map_of (objects (Store s)))(service_key ident \<mapsto> Encoded \<lparr>Name = [], Metadata = md\<rparr>)"
  using assms
  by (auto simp: HandlePutService_def dest: Store_Put_ok split: if_splits prod.splits option.splits)

lemma HandleDeleteService_ok:
  assumes "HandleDeleteService s ident = (StatusNoContent, s')"
  shows "\<exists>svc. map_of (objects (Store s)) (service_key ident) = Some (Encoded svc)
           \<and> serviceProviders s' = (serviceProviders s)(EntityID (Metadata svc) := None)
           \<and> map_of (objects (Store s')) = (map_of (objects (Store s)))(service_key ident := None)"
  using assms
  apply (auto simp: HandleDeleteService_def split: if_splits prod.splits option.splits sum.splits)
  subgoal for st' svc st''
    using Store_Get_ok[of "Store s" "service_key ident" svc st'] Store_Delete_ok[of st' "service_key ident" st'']
      Store_Get_objects[of "Store s" "service_key ident"]
    by auto
  done

lemma service_key_inj: "service_key a = service_key b \<longleftrightarrow> a = b"
  by (simp add: service_key_def)

subsection \<open>The reload loop\<close>

lemma next_call_no_faults:
  "no_faults st \<Longrightarrow> next_call st = (False, snd (next_call st)) \<and> no_faults (snd (next_call st))"
  by (cases "faults st") (auto simp: next_call_def no_faults_def)

lemma Store_Get_faults_objects:
  "Store_Get st key = (r, st') \<Longrightarrow> objects st' = objects st \<and> (no_faults st \<longrightarrow> no_faults st')"
  by (cases "faults st")
     (auto simp: Store_Get_def next_call_def no_faults_def split: bool.splits option.splits blob.splits if_splits)

lemma Store_Get_present:
  "no_faults st \<Longrightarrow> map_of (objects st) key = Some (Encoded v) \<Longrightarrow> fst (Store_Get st key) = Inr v"
proof -
  assume nf: "no_faults st" and here: "map_of (objects st) key = Some (Encoded v)"
  have "\<not> fst (next_call st)" using next_call_no_faults[OF nf] by (metis fst_conv)
  then show ?thesis using here by (simp add: Store_Get_no_fault)
qed

lemma in_names_under: "n \<in> set (names_under p kvs) \<longleftrightarrow> p @ n \<in> fst ` set kvs"
proof
  assume "n \<in> set (names_under p kvs)"
  then obtain k where k: "k \<in> fst ` set kvs" "take (length p) k = p" "n = drop (length p) k"
    by (auto simp: names_under_def)
  have "p @ n = take (length p) k @ drop (length p) k" using k by simp
  then show "p @ n \<in> fst ` set kvs" using k(1) by simp
next
  assume "p @ n \<in> fst ` set kvs"
  then have "p @ n \<in> {k \<in> set (map fst kvs). take (length p) k = p}" by simp
  then have "drop (length p) (p @ n) \<in> set (names_under p kvs)"
    unfolding names_under_def by (simp only: set_map set_sort set_filter image_eqI)
  then show "n \<in> set (names_under p kvs)" by simp
qed

lemma load_services_ok:
  "load_services s ns = (None, s') \<Longrightarrow>
     \<exists>svcs. map (\<lambda>n. map_of (objects (Store s)) (service_key n)) ns = map (Some \<circ> Encoded) svcs
         \<and> serviceProviders s' = serviceProviders s ++ map_of (rev (map entry svcs))
         \<and> objects (Store s') = objects (Store s)
         \<and> (no_faults (Store s) \<longrightarrow> no_faults (Store s'))"
proof (induction ns arbitrary: s)
  case Nil
  then show ?case by simp
next
  case (Cons n ns)
  obtain r st where g: "Store_Get (Store s) (service_key n) = (r, st)"
    by (cases "Store_Get (Store s) (service_key n)") 
  with Cons.prems obtain svc where r: "r = Inr svc" by (cases r) auto
  let ?s1 = "s\<lparr>Store := st,
               serviceProviders := (serviceProviders s)(EntityID (Metadata svc) \<mapsto> Metadata svc)\<rparr>"
  have l: "load_services ?s1 ns = (None, s')" using Cons.prems g r by simp
  from Cons.IH[OF l] obtain svcs where
    m: "map (\<lambda>n. map_of (objects (Store ?s1)) (service_key n)) ns = map (Some \<circ> Encoded) svcs"
    and i: "serviceProviders s' = serviceProviders ?s1 ++ map_of (rev (map entry svcs))"
    and o: "objects (Store s') = objects (Store ?s1)"
    and f: "no_faults (Store ?s1) \<longrightarrow> no_faults (Store s')"
    by blast
  have so: "objects st = objects (Store s)" "no_faults (Store s) \<longrightarrow> no_faults st"
    using Store_Get_faults_objects[OF g] by auto
  have here: "map_of (objects (Store s)) (service_key n) = Some (Encoded svc)"
    using Store_Get_ok g r by blast
  have "map (\<lambda>n. map_of (objects (Store s)) (service_key n)) (n # ns)
          = map (Some \<circ> Encoded) (svc # svcs)"
    using m so here by simp
  moreover have "serviceProviders s' = serviceProviders s ++ map_of (rev (map entry (svc # svcs)))"
    using i by (simp add: entry_def map_add_upd_left)
  ultimately show ?case using o f so by (intro exI[of _ "svc # svcs"]) simp
qed

lemma load_services_append:
  "load_services s (xs @ ys) =
     (case load_services s xs of
        (None, s1) \<Rightarrow> load_services s1 ys
      | (Some e, s1) \<Rightarrow> (Some e, s1))"
  by (induction xs arbitrary: s) (auto split: prod.splits sum.splits)

lemma load_services_abort:
  assumes "load_services s ns1 = (None, s1)"
    and "fst (Store_Get (Store s1) (service_key n)) = Inl e"
  shows "fst (load_services s (ns1 @ n # ns2)) = Some (StoreFailure e)
         \<and> serviceProviders (snd (load_services s (ns1 @ n # ns2))) = serviceProviders s1"
  using assms by (auto simp: load_services_append split: prod.splits sum.splits)

lemma load_services_succeeds:
  "no_faults (Store s) \<Longrightarrow>
   \<forall>n \<in> set ns. \<exists>svc. map_of (objects (Store s)) (service_key n) = Some (Encoded svc) \<Longrightarrow>
   fst (load_services s ns) = None"
proof (induction ns arbitrary: s)
  case Nil
  then show ?case by simp
next
  case (Cons n ns)
  from Cons.prems(2) obtain svc where
    here: "map_of (objects (Store s)) (service_key n) = Some (Encoded svc)" by auto
  obtain st where g: "Store_Get (Store s) (service_key n) = (Inr svc, st)"
    using Store_Get_present[OF Cons.prems(1) here]
    by (cases "Store_Get (Store s) (service_key n)") auto
  have so: "objects st = objects (Store s)" "no_faults st"
    using Store_Get_faults_objects[OF g] Cons.prems(1) by auto
  show ?case using g Cons.IH[of "s\<lparr>Store := st,
               serviceProviders := (serviceProviders s)(EntityID (Metadata svc) \<mapsto> Metadata svc)\<rparr>"]
      so Cons.prems(2) by simp
qed

subsection \<open>The durable set and the index after a reload\<close>

lemma prefix_split: "take (length p) k = p \<Longrightarrow> k = p @ drop (length p) k"
  by (metis append_take_drop_id)

lemma durable_entries_iff:
  "(E, m) \<in> durable_entries st \<longleftrightarrow>
     (\<exists>name r. map_of (objects st) (service_key name) = Some (Encoded r) \<and> entry r = (E, m))"
proof
  assume "(E, m) \<in> durable_entries st"
  then obtain k where k: "take (length ''/services/'') k = ''/services/''"
    and c: "(E, m) \<in> set (case map_of (objects st) k of
                              Some (Encoded r) \<Rightarrow> [entry r] | _ \<Rightarrow> [])"
    unfolding durable_entries_def by auto
  from c obtain r where r: "map_of (objects st) k = Some (Encoded r)" "entry r = (E, m)"
    by (cases "map_of (objects st) k"; cases "the (map_of (objects st) k)") auto
  have "k = service_key (drop (length ''/services/'') k)"
    unfolding service_key_def using k by (rule prefix_split)
  then show "\<exists>name r. map_of (objects st) (service_key name) = Some (Encoded r) \<and> entry r = (E, m)"
    using r by metis
next
  assume "\<exists>name r. map_of (objects st) (service_key name) = Some (Encoded r) \<and> entry r = (E, m)"
  then obtain name r where r: "map_of (objects st) (service_key name) = Some (Encoded r)"
    "entry r = (E, m)" by blast
  have "service_key name \<in> set (map fst (objects st))"
    using map_of_SomeD[OF r(1)] by force
  moreover have "take (length ''/services/'') (service_key name) = ''/services/''"
    by (simp add: service_key_def)
  ultimately show "(E, m) \<in> durable_entries st"
    using r unfolding durable_entries_def by force
qed

lemma listed_services_durable:
  assumes "map (\<lambda>n. map_of (objects st) (service_key n)) (names_under ''/services/'' (objects st))
             = map (Some \<circ> Encoded) svcs"
  shows "set (map entry svcs) = durable_entries st"
proof -
  let ?ns = "names_under ''/services/'' (objects st)"
  have img: "(\<lambda>n. map_of (objects st) (service_key n)) ` set ?ns = (Some \<circ> Encoded) ` set svcs"
    using arg_cong[OF assms, of set] by simp
  have a: "r \<in> set svcs \<longleftrightarrow> (\<exists>n. map_of (objects st) (service_key n) = Some (Encoded r))" for r
  proof
    assume "r \<in> set svcs"
    then have "Some (Encoded r) \<in> (\<lambda>n. map_of (objects st) (service_key n)) ` set ?ns"
      using img by auto
    then show "\<exists>n. map_of (objects st) (service_key n) = Some (Encoded r)" by force
  next
    assume "\<exists>n. map_of (objects st) (service_key n) = Some (Encoded r)"
    then obtain n where n: "map_of (objects st) (service_key n) = Some (Encoded r)" by blast
    have "''/services/'' @ n \<in> fst ` set (objects st)"
      using map_of_SomeD[OF n] by (force simp: service_key_def)
    then have "n \<in> set ?ns" by (simp only: in_names_under)
    then have "Some (Encoded r) \<in> (Some \<circ> Encoded) ` set svcs"
      using img n by force
    then show "r \<in> set svcs" by auto
  qed
  show ?thesis
  proof (rule set_eqI)
    fix x :: "string \<times> EntityDescriptor"
    obtain E m where x: "x = (E, m)" by (cases x)
    have "(E, m) \<in> set (map entry svcs) \<longleftrightarrow> (\<exists>r. r \<in> set svcs \<and> entry r = (E, m))"
      by force
    also have "\<dots> \<longleftrightarrow> (\<exists>name r. map_of (objects st) (service_key name) = Some (Encoded r)
                               \<and> entry r = (E, m))"
      unfolding a by blast
    finally show "x \<in> set (map entry svcs) \<longleftrightarrow> x \<in> durable_entries st"
      unfolding x durable_entries_iff .
  qed
qed

lemma graph_map_of_rev:
  assumes "single_valued (set es)"
  shows "Map.graph (map_of (rev es)) = set es"
proof (rule set_eqI)
  fix x :: "'a \<times> 'b"
  obtain k v where x: "x = (k, v)" by (cases x)
  show "x \<in> Map.graph (map_of (rev es)) \<longleftrightarrow> x \<in> set es"
  proof
    assume "x \<in> Map.graph (map_of (rev es))"
    then have "map_of (rev es) k = Some v" unfolding x by (rule in_graphD)
    from map_of_SomeD[OF this] show "x \<in> set es" unfolding x by simp
  next
    assume in_es: "x \<in> set es"
    then have "k \<in> fst ` set (rev es)" unfolding x by force
    then obtain v' where v': "map_of (rev es) k = Some v'"
      by (metis domD dom_map_of_conv_image_fst)
    from map_of_SomeD[OF v'] have "(k, v') \<in> set es" by simp
    with in_es assms have "v' = v" unfolding x single_valued_def by blast
    with v' show "x \<in> Map.graph (map_of (rev es))" unfolding x by (simp add: in_graphI)
  qed
qed

lemma initializeServices_ok:
  assumes "initializeServices s = (None, s')"
  shows "\<exists>svcs. map (\<lambda>n. map_of (objects (Store s)) (service_key n))
                   (names_under ''/services/'' (objects (Store s))) = map (Some \<circ> Encoded) svcs
           \<and> serviceProviders s' = serviceProviders s ++ map_of (rev (map entry svcs))
           \<and> objects (Store s') = objects (Store s)"
proof -
  obtain r st where l: "Store_List (Store s) ''/services/'' = (r, st)"
    by (cases "Store_List (Store s) ''/services/''")
  have o: "objects st = objects (Store s)"
    using l by (auto simp: Store_List_def next_call_def split: list.splits bool.splits if_splits)
  from assms l obtain ns where r: "r = Inr ns" by (cases r) (auto simp: initializeServices_def)
  have ns: "ns = names_under ''/services/'' (objects (Store s))"
    using l r by (auto simp: Store_List_def next_call_def split: list.splits bool.splits if_splits)
  have "load_services (s\<lparr>Store := st\<rparr>) ns = (None, s')"
    using assms l r by (simp add: initializeServices_def)
  from load_services_ok[OF this] show ?thesis using o ns by auto
qed

lemma map_add_twice: "(m ++ n) ++ n = m ++ n"
  by (rule ext) (simp add: map_add_def split: option.splits)

lemma initializeServices_list_failed:
  "fst (Store_List (Store s) ''/services/'') = Inl e \<Longrightarrow>
     fst (initializeServices s) = Some (StoreFailure e)"
  by (auto simp: initializeServices_def split: prod.splits sum.splits)

lemma initializeServices_entry_failed:
  assumes "Store_List (Store s) ''/services/'' = (Inr (ns1 @ n # ns2), st)"
    and "load_services (s\<lparr>Store := st\<rparr>) ns1 = (None, s1)"
    and "fst (Store_Get (Store s1) (service_key n)) = Inl e"
  shows "fst (initializeServices s) = Some (StoreFailure e)"
  using load_services_abort[OF assms(2,3), of ns2] assms(1)
  by (simp add: initializeServices_def)

lemma initializeServices_mirror:
  assumes "initializeServices s = (None, s')"
    and "serviceProviders s = Map.empty"
    and "single_valued (durable_entries (Store s))"
  shows "Map.graph (serviceProviders s') = durable_entries (Store s)"
proof -
  from initializeServices_ok[OF assms(1)] obtain svcs where
    m: "map (\<lambda>n. map_of (objects (Store s)) (service_key n))
          (names_under ''/services/'' (objects (Store s))) = map (Some \<circ> Encoded) svcs"
    and i: "serviceProviders s' = serviceProviders s ++ map_of (rev (map entry svcs))"
    by blast
  have d: "set (map entry svcs) = durable_entries (Store s)"
    using m by (rule listed_services_durable)
  have "serviceProviders s' = map_of (rev (map entry svcs))"
    using i assms(2) by simp
  then show ?thesis
    using graph_map_of_rev[of "map entry svcs"] assms(3) d by simp
qed

subsection \<open>The examples, evaluated\<close>

lemma add_acme1: "AddService empty_server (Some acme1) = (None, acme1_server [])"
  by (simp add: AddService_def Store_Put_def next_call_def service_key_def)

lemma delete_acme1: "HandleDeleteService (acme1_server []) ''acme'' = (StatusNoContent, empty_server)"
  by (simp add: HandleDeleteService_def Store_Get_def Store_Delete_def next_call_def
      service_key_def AList.delete_eq)

lemma reload_two_store:
  "initializeServices \<lparr>Store = two_store, serviceProviders = Map.empty\<rparr>
     = (None, \<lparr>Store = two_store, serviceProviders = [''E1'' \<mapsto> md1, ''E2'' \<mapsto> md2]\<rparr>)"
  by (simp add: initializeServices_def Store_List_def Store_Get_def next_call_def
      names_under_def service_key_def)

lemma reload_clash_store:
  "initializeServices \<lparr>Store = clash_store, serviceProviders = Map.empty\<rparr>
     = (None, \<lparr>Store = clash_store, serviceProviders = [''E1'' \<mapsto> md1']\<rparr>)"
  by (simp add: initializeServices_def Store_List_def Store_Get_def next_call_def
      names_under_def service_key_def)

section \<open>Properties\<close>

text \<open>
  C1 (as the code has it). When a name is registered with metadata of entity ID \<open>E1\<close> and
  then registered again, through \<open>AddService\<close> or \<open>HandlePutService\<close>, with metadata of a
  different entity ID \<open>E2\<close>, then after the second registration the lookup of \<open>E2\<close> returns
  the new metadata, and the lookup of \<open>E1\<close> is not "not exist": the update inserts the new
  index entry and does not remove the old one. What the old entry holds is not stated: it
  points into the struct registered first, which the caller may have changed since.
\<close>

theorem update_keeps_old_entry:
  assumes "AddService s (Some \<lparr>Name = name, Metadata = m1\<rparr>) = (None, s1)
           \<or> (dec b1 = Some m1 \<and> HandlePutService dec s name b1 = (StatusNoContent, s1))"
    and "AddService s1 (Some \<lparr>Name = name, Metadata = m2\<rparr>) = (None, s2)
           \<or> (dec b2 = Some m2 \<and> HandlePutService dec s1 name b2 = (StatusNoContent, s2))"
    and "EntityID m1 \<noteq> EntityID m2"
  shows "GetServiceProvider s2 (EntityID m2) = Inr m2
         \<and> GetServiceProvider s2 (EntityID m1) \<noteq> Inl ErrNotExist"
proof -
  have i1: "serviceProviders s1 = (serviceProviders s)(EntityID m1 \<mapsto> m1)"
    using assms(1) AddService_ok(1)[of s "\<lparr>Name = name, Metadata = m1\<rparr>" s1]
      HandlePutService_ok[of dec s name b1 s1] by auto
  have i2: "serviceProviders s2 = (serviceProviders s1)(EntityID m2 \<mapsto> m2)"
    using assms(2) AddService_ok(1)[of s1 "\<lparr>Name = name, Metadata = m2\<rparr>" s2]
      HandlePutService_ok[of dec s1 name b2 s2] by auto
  show ?thesis using assms(3) by (simp add: GetServiceProvider_def i1 i2)
qed

theorem update_keeps_old_entry_witness:
  "AddService empty_server (Some acme1) = (None, acme1_server [])
   \<and> decode_E2 ''<E2/>'' = Some md2
   \<and> fst (HandlePutService decode_E2 (acme1_server []) ''acme'' ''<E2/>'') = StatusNoContent
   \<and> EntityID md1 \<noteq> EntityID md2
   \<and> GetServiceProvider (snd (HandlePutService decode_E2 (acme1_server []) ''acme'' ''<E2/>''))
        ''E2'' = Inr md2
   \<and> GetServiceProvider (snd (HandlePutService decode_E2 (acme1_server []) ''acme'' ''<E2/>''))
        ''E1'' \<noteq> Inl ErrNotExist"
proof -
  let ?s2 = "snd (HandlePutService decode_E2 (acme1_server []) ''acme'' ''<E2/>'')"
  have h1: "AddService empty_server (Some acme1) = (None, acme1_server [])"
    by (rule add_acme1)
  have st: "fst (HandlePutService decode_E2 (acme1_server []) ''acme'' ''<E2/>'') = StatusNoContent"
    by (simp add: HandlePutService_def Store_Put_def next_call_def)
  then have h2: "decode_E2 ''<E2/>'' = Some md2
      \<and> HandlePutService decode_E2 (acme1_server []) ''acme'' ''<E2/>'' = (StatusNoContent, ?s2)"
    by (simp add: prod_eq_iff)
  have h3: "EntityID md1 \<noteq> EntityID md2" by simp
  from update_keeps_old_entry
    [of empty_server "''acme''" md1 "acme1_server []" decode_E2 "''<E1/>''" md2 ?s2 "''<E2/>''",
     OF disjI1[OF h1] disjI2[OF h2] h3] h1 h2 h3 st
  show ?thesis by simp
qed

text \<open>
  C1 as the spec states it fails: after \<open>acme\<close> is registered with \<open>E1\<close> and then with
  \<open>E2\<close>, both registrations succeeding, the lookup of \<open>E1\<close> is not "not exist", and the
  lookup of \<open>E2\<close> returns the new metadata.
\<close>

theorem update_removes_old_entry_counterexample:
  "fst (AddService empty_server (Some acme1)) = None
   \<and> fst (AddService (snd (AddService empty_server (Some acme1))) (Some acme2)) = None
   \<and> GetServiceProvider
        (snd (AddService (snd (AddService empty_server (Some acme1))) (Some acme2))) ''E2''
       = Inr md2
   \<and> GetServiceProvider
        (snd (AddService (snd (AddService empty_server (Some acme1))) (Some acme2))) ''E1''
       \<noteq> Inl ErrNotExist"
  by (simp add: AddService_def Store_Put_def next_call_def GetServiceProvider_def)

text \<open>
  C2 (the code at the failing input). A \<open>PUT\<close> whose body decodes to a descriptor with the
  empty entity ID is answered with 204: the record is written to the store and the index
  gets an entry under the empty key. \<open>AddService\<close> rejects such a record;
  \<open>HandlePutService\<close> has no such check. A reload over that store, from an empty index,
  indexes the record again.
\<close>

theorem put_stores_empty_entityID:
  "HandlePutService decode_no_id empty_server ''x'' ''<EntityDescriptor/>''
     = (StatusNoContent,
        \<lparr>Store = \<lparr>objects = [(''/services/x'',
                     Encoded \<lparr>Name = [],
                              Metadata = \<lparr>EntityID = [], Rest = ''<EntityDescriptor/>''\<rparr>\<rparr>)],
                  faults = []\<rparr>,
         serviceProviders = [[] \<mapsto> \<lparr>EntityID = [], Rest = ''<EntityDescriptor/>''\<rparr>]\<rparr>)
   \<and> serviceProviders
        (snd (initializeServices
           \<lparr>Store = \<lparr>objects = [(''/services/x'',
                        Encoded \<lparr>Name = [],
                                 Metadata = \<lparr>EntityID = [], Rest = ''<EntityDescriptor/>''\<rparr>\<rparr>)],
                     faults = []\<rparr>,
            serviceProviders = Map.empty\<rparr>)) []
       = Some \<lparr>EntityID = [], Rest = ''<EntityDescriptor/>''\<rparr>"
  by (simp add: HandlePutService_def Store_Put_def Store_List_def Store_Get_def next_call_def
      service_key_def initializeServices_def names_under_def)

text \<open>
  C3. When the store's \<open>Put\<close> fails, \<open>AddService\<close> returns the error "failed to store
  service" and \<open>HandlePutService\<close> answers 500; when the store's \<open>Delete\<close> fails,
  \<open>HandleDeleteService\<close> answers 500. In each case the index afterwards is the index
  before.
\<close>

theorem failed_store_write_leaves_index:
  "(EntityID (Metadata svc) \<noteq> [] \<and>
      fst (Store_Put (Store s) (service_key (Name svc)) svc) = Some e
    \<longrightarrow> fst (AddService s (Some svc)) = Some (FailedToStoreService e)
        \<and> serviceProviders (snd (AddService s (Some svc))) = serviceProviders s)
   \<and> (Store_Get (Store s) (service_key ident) = (Inr v, st) \<and>
        fst (Store_Delete st (service_key ident)) = Some e'
    \<longrightarrow> fst (HandleDeleteService s ident) = StatusInternalServerError
        \<and> serviceProviders (snd (HandleDeleteService s ident)) = serviceProviders s)
   \<and> (getSPMetadata body = Some md \<and>
        fst (Store_Put (Store s) (service_key ident) \<lparr>Name = [], Metadata = md\<rparr>) = Some e''
    \<longrightarrow> fst (HandlePutService getSPMetadata s ident body) = StatusInternalServerError
        \<and> serviceProviders (snd (HandlePutService getSPMetadata s ident body))
            = serviceProviders s)"
  by (auto simp: AddService_def HandleDeleteService_def HandlePutService_def
      split: prod.splits option.splits sum.splits)

theorem failed_store_write_leaves_index_witness:
  "(EntityID (Metadata acme2) \<noteq> [] \<and>
      fst (Store_Put (Store (acme1_server [True])) (service_key ''acme'') acme2) = Some ErrStorage)
   \<and> fst (AddService (acme1_server [True]) (Some acme2)) = Some (FailedToStoreService ErrStorage)
   \<and> serviceProviders (snd (AddService (acme1_server [True]) (Some acme2))) = [''E1'' \<mapsto> md1]
   \<and> (Store_Get (Store (acme1_server [False, True])) (service_key ''acme'')
         = (Inr acme1, acme1_store [True]) \<and>
       fst (Store_Delete (acme1_store [True]) (service_key ''acme'')) = Some ErrStorage)
   \<and> fst (HandleDeleteService (acme1_server [False, True]) ''acme'') = StatusInternalServerError
   \<and> serviceProviders (snd (HandleDeleteService (acme1_server [False, True]) ''acme''))
       = [''E1'' \<mapsto> md1]
   \<and> (decode_E2 ''<E2/>'' = Some md2 \<and>
        fst (Store_Put (Store (acme1_server [True])) (service_key ''acme'')
               \<lparr>Name = [], Metadata = md2\<rparr>) = Some ErrStorage)
   \<and> fst (HandlePutService decode_E2 (acme1_server [True]) ''acme'' ''<E2/>'')
       = StatusInternalServerError
   \<and> serviceProviders (snd (HandlePutService decode_E2 (acme1_server [True]) ''acme'' ''<E2/>''))
       = [''E1'' \<mapsto> md1]"
proof -
  have a: "EntityID (Metadata acme2) \<noteq> [] \<and>
      fst (Store_Put (Store (acme1_server [True])) (service_key (Name acme2)) acme2)
        = Some ErrStorage"
    by (simp add: Store_Put_def next_call_def)
  have b: "Store_Get (Store (acme1_server [False, True])) (service_key ''acme'')
         = (Inr acme1, acme1_store [True]) \<and>
       fst (Store_Delete (acme1_store [True]) (service_key ''acme'')) = Some ErrStorage"
    by (simp add: Store_Get_def Store_Delete_def next_call_def service_key_def)
  have c: "decode_E2 ''<E2/>'' = Some md2 \<and>
        fst (Store_Put (Store (acme1_server [True])) (service_key ''acme'')
               \<lparr>Name = [], Metadata = md2\<rparr>) = Some ErrStorage"
    by (simp add: Store_Put_def next_call_def)
  have t1: "fst (AddService (acme1_server [True]) (Some acme2))
              = Some (FailedToStoreService ErrStorage)
      \<and> serviceProviders (snd (AddService (acme1_server [True]) (Some acme2)))
          = serviceProviders (acme1_server [True])"
    using failed_store_write_leaves_index [of acme2 "acme1_server [True]" ErrStorage] a
    by blast
  have t2: "fst (HandleDeleteService (acme1_server [False, True]) ''acme'')
              = StatusInternalServerError
      \<and> serviceProviders (snd (HandleDeleteService (acme1_server [False, True]) ''acme''))
          = serviceProviders (acme1_server [False, True])"
    using failed_store_write_leaves_index
      [of _ "acme1_server [False, True]" _ "''acme''" acme1 "acme1_store [True]" ErrStorage] b
    by blast
  have t3: "fst (HandlePutService decode_E2 (acme1_server [True]) ''acme'' ''<E2/>'')
              = StatusInternalServerError
      \<and> serviceProviders (snd (HandlePutService decode_E2 (acme1_server [True]) ''acme'' ''<E2/>''))
          = serviceProviders (acme1_server [True])"
    using failed_store_write_leaves_index
      [of _ "acme1_server [True]" _ "''acme''" _ _ _ decode_E2 "''<E2/>''" md2 ErrStorage] c
    by blast
  from a b c t1 t2 t3 show ?thesis by simp
qed

text \<open>
  C4. When \<open>AddService\<close> succeeds, the lookup of the metadata's entity ID returns that
  metadata, the store holds the record under the key of the name, and reading that key
  (as long as the store does not fail the call) returns the same record.
\<close>

theorem register_then_read:
  assumes "AddService s (Some svc) = (None, s')"
  shows "GetServiceProvider s' (EntityID (Metadata svc)) = Inr (Metadata svc)
         \<and> map_of (objects (Store s')) (service_key (Name svc)) = Some (Encoded svc)
         \<and> (\<not> fst (next_call (Store s')) \<longrightarrow>
              fst (Store_Get (Store s') (service_key (Name svc))) = Inr svc)"
  using AddService_ok(1,2)[OF assms]
  by (simp add: GetServiceProvider_def Store_Get_no_fault)

theorem register_then_read_witness:
  "AddService empty_server (Some acme1) = (None, acme1_server [])
   \<and> GetServiceProvider (acme1_server []) ''E1'' = Inr md1
   \<and> \<not> fst (next_call (Store (acme1_server [])))
   \<and> fst (Store_Get (Store (acme1_server [])) ''/services/acme'') = Inr acme1"
proof -
  have n: "\<not> fst (next_call (Store (acme1_server [])))"
    by (simp add: next_call_def)
  from register_then_read[OF add_acme1] add_acme1 n show ?thesis
    by (simp add: service_key_def)
qed

text \<open>
  C5. When \<open>HandleDeleteService\<close> succeeds for a name under which the store held a record,
  the store holds nothing under the key of the name, so that reading it (as long as the
  store does not fail the call) is "not found", and the lookup of the entity ID that was
  stored under the name is "not exist".
\<close>

theorem delete_removes_both_views:
  assumes "map_of (objects (Store s)) (service_key ident) = Some (Encoded svc)"
    and "HandleDeleteService s ident = (StatusNoContent, s')"
  shows "map_of (objects (Store s')) (service_key ident) = None
         \<and> (\<not> fst (next_call (Store s')) \<longrightarrow>
              fst (Store_Get (Store s') (service_key ident)) = Inl ErrNotFound)
         \<and> GetServiceProvider s' (EntityID (Metadata svc)) = Inl ErrNotExist"
  using HandleDeleteService_ok[OF assms(2)] assms(1)
  by (auto simp: GetServiceProvider_def Store_Get_no_fault)

theorem delete_removes_both_views_witness:
  "map_of (objects (Store (acme1_server []))) (service_key ''acme'') = Some (Encoded acme1)
   \<and> HandleDeleteService (acme1_server []) ''acme'' = (StatusNoContent, empty_server)
   \<and> map_of (objects (Store empty_server)) (service_key ''acme'') = None
   \<and> \<not> fst (next_call (Store empty_server))
   \<and> fst (Store_Get (Store empty_server) (service_key ''acme'')) = Inl ErrNotFound
   \<and> GetServiceProvider empty_server ''E1'' = Inl ErrNotExist"
proof -
  have h1: "map_of (objects (Store (acme1_server []))) (service_key ''acme'')
              = Some (Encoded acme1)"
    by (simp add: service_key_def)
  have n: "\<not> fst (next_call (Store empty_server))"
    by (simp add: next_call_def)
  from delete_removes_both_views[OF h1 delete_acme1] h1 delete_acme1 n show ?thesis
    by simp
qed

text \<open>
  C6 (as the code has it). \<open>initializeServices\<close> lists the names under \<open>/services/\<close> and
  reads them in the order of the listing. When the listing fails, or when the entries before
  some name load and reading that name fails, the reload returns that error. When the reload
  succeeds, every listed entry decoded, and the index afterwards is the index before,
  overridden by the entries of the listed records in listing order, so that of two records
  with one entity ID the one listed later is kept. Started on an empty index over a store in
  which no entity ID has two different metadata, the index afterwards is exactly the durable
  set.
\<close>

theorem reload_result:
  "(fst (Store_List (Store s) ''/services/'') = Inl e \<longrightarrow>
      fst (initializeServices s) = Some (StoreFailure e))
   \<and> (Store_List (Store s) ''/services/'' = (Inr (ns1 @ n # ns2), st) \<and>
       load_services (s\<lparr>Store := st\<rparr>) ns1 = (None, s1) \<and>
       fst (Store_Get (Store s1) (service_key n)) = Inl e' \<longrightarrow>
      fst (initializeServices s) = Some (StoreFailure e'))
   \<and> (initializeServices s = (None, s') \<longrightarrow>
        (\<exists>svcs. map (\<lambda>n. map_of (objects (Store s)) (service_key n))
                   (names_under ''/services/'' (objects (Store s))) = map (Some \<circ> Encoded) svcs
              \<and> serviceProviders s' = serviceProviders s ++ map_of (rev (map entry svcs)))
        \<and> (serviceProviders s = Map.empty \<and> single_valued (durable_entries (Store s)) \<longrightarrow>
             Map.graph (serviceProviders s') = durable_entries (Store s)))"
proof (intro conjI impI)
  assume "fst (Store_List (Store s) ''/services/'') = Inl e"
  then show "fst (initializeServices s) = Some (StoreFailure e)"
    by (rule initializeServices_list_failed)
next
  assume "Store_List (Store s) ''/services/'' = (Inr (ns1 @ n # ns2), st) \<and>
       load_services (s\<lparr>Store := st\<rparr>) ns1 = (None, s1) \<and>
       fst (Store_Get (Store s1) (service_key n)) = Inl e'"
  then show "fst (initializeServices s) = Some (StoreFailure e')"
    using initializeServices_entry_failed by blast
next
  assume "initializeServices s = (None, s')"
  from initializeServices_ok[OF this]
  show "\<exists>svcs. map (\<lambda>n. map_of (objects (Store s)) (service_key n))
                   (names_under ''/services/'' (objects (Store s))) = map (Some \<circ> Encoded) svcs
              \<and> serviceProviders s' = serviceProviders s ++ map_of (rev (map entry svcs))"
    by blast
next
  assume "initializeServices s = (None, s')"
    and "serviceProviders s = Map.empty \<and> single_valued (durable_entries (Store s))"
  then show "Map.graph (serviceProviders s') = durable_entries (Store s)"
    using initializeServices_mirror by blast
qed

theorem reload_result_witness:
  "fst (Store_List (Store (acme1_server [True])) ''/services/'') = Inl ErrStorage
   \<and> fst (initializeServices (acme1_server [True])) = Some (StoreFailure ErrStorage)
   \<and> Store_List corrupt_store ''/services/'' = (Inr ([''a''] @ ''b'' # [''c'']), corrupt_store)
   \<and> load_services \<lparr>Store = corrupt_store, serviceProviders = Map.empty\<rparr> [''a'']
       = (None, \<lparr>Store = corrupt_store, serviceProviders = [''E1'' \<mapsto> md1]\<rparr>)
   \<and> fst (Store_Get corrupt_store (service_key ''b'')) = Inl ErrDecode
   \<and> fst (initializeServices \<lparr>Store = corrupt_store, serviceProviders = Map.empty\<rparr>)
       = Some (StoreFailure ErrDecode)
   \<and> initializeServices \<lparr>Store = two_store, serviceProviders = Map.empty\<rparr>
       = (None, \<lparr>Store = two_store, serviceProviders = [''E1'' \<mapsto> md1, ''E2'' \<mapsto> md2]\<rparr>)
   \<and> single_valued (durable_entries two_store)
   \<and> Map.graph [''E1'' \<mapsto> md1, ''E2'' \<mapsto> md2] = durable_entries two_store
   \<and> durable_entries two_store = {(''E1'', md1), (''E2'', md2)}"
proof -
  let ?c = "\<lparr>Store = corrupt_store, serviceProviders = Map.empty\<rparr>"
  let ?c1 = "\<lparr>Store = corrupt_store, serviceProviders = [''E1'' \<mapsto> md1]\<rparr>"
  let ?t = "\<lparr>Store = two_store, serviceProviders = Map.empty\<rparr>"
  let ?t' = "\<lparr>Store = two_store, serviceProviders = [''E1'' \<mapsto> md1, ''E2'' \<mapsto> md2]\<rparr>"
  have a: "fst (Store_List (Store (acme1_server [True])) ''/services/'') = Inl ErrStorage"
    by (simp add: Store_List_def next_call_def)
  have b1: "Store_List (Store ?c) ''/services/'' = (Inr ([''a''] @ ''b'' # [''c'']), corrupt_store)"
    by (simp add: Store_List_def next_call_def names_under_def)
  have b2: "load_services (?c\<lparr>Store := corrupt_store\<rparr>) [''a''] = (None, ?c1)"
    by (simp add: Store_Get_def next_call_def service_key_def)
  have b3: "fst (Store_Get (Store ?c1) (service_key ''b'')) = Inl ErrDecode"
    by (simp add: Store_Get_def next_call_def service_key_def)
  have d: "durable_entries two_store = {(''E1'', md1), (''E2'', md2)}"
    by (auto simp: durable_entries_def entry_def)
  have sv: "serviceProviders ?t = Map.empty \<and> single_valued (durable_entries (Store ?t))"
    by (simp add: d single_valued_def)
  have t1: "fst (initializeServices (acme1_server [True])) = Some (StoreFailure ErrStorage)"
    using reload_result[of "acme1_server [True]" ErrStorage] a by blast
  have t2: "fst (initializeServices ?c) = Some (StoreFailure ErrDecode)"
    using reload_result[of ?c _ "[''a'']" "''b''" "[''c'']" corrupt_store ?c1 ErrDecode]
      b1 b2 b3 by blast
  have t3: "Map.graph (serviceProviders ?t') = durable_entries (Store ?t)"
    using reload_result[of ?t _ _ _ _ _ _ _ ?t'] reload_two_store sv by blast
  from a b1 b2 b3 d sv t1 t2 t3 reload_two_store show ?thesis by simp
qed

text \<open>
  C6 as the spec states it fails: over a store with two records of one entity ID and
  different metadata, the reload from an empty index succeeds and the index afterwards is not
  the durable set: the entry of the record listed first is missing.
\<close>

theorem reload_mirrors_store_counterexample:
  "fst (initializeServices \<lparr>Store = clash_store, serviceProviders = Map.empty\<rparr>) = None
   \<and> (''E1'', md1) \<in> durable_entries clash_store
   \<and> (''E1'', md1) \<notin>
        Map.graph (serviceProviders
          (snd (initializeServices \<lparr>Store = clash_store, serviceProviders = Map.empty\<rparr>)))
   \<and> Map.graph (serviceProviders
          (snd (initializeServices \<lparr>Store = clash_store, serviceProviders = Map.empty\<rparr>)))
       \<noteq> durable_entries clash_store"
proof -
  have d: "(''E1'', md1) \<in> durable_entries clash_store"
    by (simp add: durable_entries_def entry_def)
  have g: "(''E1'', md1) \<notin> Map.graph [''E1'' \<mapsto> md1']"
    by (simp add: Map.graph_def)
  have ne: "Map.graph [''E1'' \<mapsto> md1'] \<noteq> durable_entries clash_store"
  proof
    assume "Map.graph [''E1'' \<mapsto> md1'] = durable_entries clash_store"
    with d have "(''E1'', md1) \<in> Map.graph [''E1'' \<mapsto> md1']" by (simp only:)
    with g show False by (simp only: not_True_eq_False)
  qed
  from d g ne show ?thesis
    by (simp only: reload_clash_store fst_conv snd_conv server.simps simp_thms)
qed

text \<open>
  C7. \<open>AddService\<close> with a service whose metadata has the empty entity ID returns the error
  "invalid service", and the server afterwards is the server before: neither the store nor
  the index is modified.
\<close>

theorem AddService_empty_entityID_rejected:
  "EntityID (Metadata svc) = [] \<Longrightarrow> AddService s (Some svc) = (Some InvalidService, s)"
  by (simp add: AddService_def)

theorem AddService_empty_entityID_rejected_witness:
  "EntityID (Metadata \<lparr>Name = ''acme'', Metadata = \<lparr>EntityID = [], Rest = ''cert''\<rparr>\<rparr>) = []
   \<and> AddService (acme1_server [])
        (Some \<lparr>Name = ''acme'', Metadata = \<lparr>EntityID = [], Rest = ''cert''\<rparr>\<rparr>)
      = (Some InvalidService, acme1_server [])"
  using AddService_empty_entityID_rejected
    [of "\<lparr>Name = ''acme'', Metadata = \<lparr>EntityID = [], Rest = ''cert''\<rparr>\<rparr>" "acme1_server []"]
  by simp

text \<open>
  C8. After a successful \<open>initializeServices\<close>, a second one with no write in between
  succeeds as long as the store fails no call, and whenever it succeeds the index after it
  is the index after the first, over the same stored records.
\<close>

theorem reload_idempotent:
  assumes "initializeServices s = (None, s1)"
  shows "(no_faults (Store s1) \<longrightarrow> fst (initializeServices s1) = None)
         \<and> (fst (initializeServices s1) = None \<longrightarrow>
              serviceProviders (snd (initializeServices s1)) = serviceProviders s1
              \<and> objects (Store (snd (initializeServices s1))) = objects (Store s))"
proof (intro conjI impI)
  from initializeServices_ok[OF assms] obtain svcs where
    m: "map (\<lambda>n. map_of (objects (Store s)) (service_key n))
          (names_under ''/services/'' (objects (Store s))) = map (Some \<circ> Encoded) svcs"
    and i: "serviceProviders s1 = serviceProviders s ++ map_of (rev (map entry svcs))"
    and o: "objects (Store s1) = objects (Store s)"
    by blast
  {
    assume nf: "no_faults (Store s1)"
    let ?st = "snd (next_call (Store s1))"
    have l: "Store_List (Store s1) ''/services/''
               = (Inr (names_under ''/services/'' (objects (Store s))), ?st)"
    proof -
      have nc: "next_call (Store s1) = (False, ?st)"
        using next_call_no_faults[OF nf] by blast
      have "objects ?st = objects (Store s)"
        using o by (simp add: objects_next_call)
      then show ?thesis
        unfolding Store_List_def by (subst nc) simp
    qed
    have nf': "no_faults (Store (s1\<lparr>Store := ?st\<rparr>))"
      using next_call_no_faults[OF nf] by simp
    have all: "\<forall>n \<in> set (names_under ''/services/'' (objects (Store s))).
                 \<exists>svc. map_of (objects (Store (s1\<lparr>Store := ?st\<rparr>))) (service_key n)
                         = Some (Encoded svc)"
    proof
      fix n assume "n \<in> set (names_under ''/services/'' (objects (Store s)))"
      then have "map_of (objects (Store s)) (service_key n)
                   \<in> set (map (Some \<circ> Encoded) svcs)"
        using m by (metis (no_types, lifting) image_eqI set_map)
      then show "\<exists>svc. map_of (objects (Store (s1\<lparr>Store := ?st\<rparr>))) (service_key n)
                         = Some (Encoded svc)"
        using o by (auto simp: objects_next_call)
    qed
    show "fst (initializeServices s1) = None"
      using load_services_succeeds[OF nf' all] l by (simp add: initializeServices_def)
  }
  {
    assume ok: "fst (initializeServices s1) = None"
    then have "initializeServices s1 = (None, snd (initializeServices s1))"
      by (metis prod.collapse)
    from initializeServices_ok[OF this] obtain svcs' where
      m': "map (\<lambda>n. map_of (objects (Store s1)) (service_key n))
            (names_under ''/services/'' (objects (Store s1))) = map (Some \<circ> Encoded) svcs'"
      and i': "serviceProviders (snd (initializeServices s1))
                 = serviceProviders s1 ++ map_of (rev (map entry svcs'))"
      and o': "objects (Store (snd (initializeServices s1))) = objects (Store s1)"
      by blast
    have "map (Some \<circ> Encoded) svcs' = map (Some \<circ> Encoded) svcs"
      using m m' o by simp
    then have "svcs' = svcs"
      by (simp add: inj_on_def inj_map_eq_map[where f = "Some \<circ> Encoded"])
    then show "serviceProviders (snd (initializeServices s1)) = serviceProviders s1"
      using i i' by (simp add: map_add_twice)
    show "objects (Store (snd (initializeServices s1))) = objects (Store s)"
      using o o' by simp
  }
qed

theorem reload_idempotent_witness:
  "initializeServices \<lparr>Store = two_store, serviceProviders = Map.empty\<rparr>
     = (None, \<lparr>Store = two_store, serviceProviders = [''E1'' \<mapsto> md1, ''E2'' \<mapsto> md2]\<rparr>)
   \<and> no_faults two_store
   \<and> fst (initializeServices
            \<lparr>Store = two_store, serviceProviders = [''E1'' \<mapsto> md1, ''E2'' \<mapsto> md2]\<rparr>) = None
   \<and> serviceProviders (snd (initializeServices
            \<lparr>Store = two_store, serviceProviders = [''E1'' \<mapsto> md1, ''E2'' \<mapsto> md2]\<rparr>))
       = [''E1'' \<mapsto> md1, ''E2'' \<mapsto> md2]
   \<and> objects (Store (snd (initializeServices
            \<lparr>Store = two_store, serviceProviders = [''E1'' \<mapsto> md1, ''E2'' \<mapsto> md2]\<rparr>)))
       = objects two_store"
proof -
  have nf: "no_faults two_store" by (simp add: no_faults_def)
  from reload_idempotent[OF reload_two_store] reload_two_store nf show ?thesis
    by simp
qed

text \<open>
  C9. When the decoder rejects the body of a \<open>PUT\<close>, \<open>HandlePutService\<close> answers 400 (bad
  request) and the server afterwards is the server before: neither the store nor the index
  is touched.
\<close>

theorem put_undecodable_document:
  "getSPMetadata body = None \<Longrightarrow>
     HandlePutService getSPMetadata s ident body = (StatusBadRequest, s)"
  by (simp add: HandlePutService_def)

theorem put_undecodable_document_witness:
  "decode_E2 ''not xml'' = None
   \<and> HandlePutService decode_E2 (acme1_server []) ''acme'' ''not xml''
       = (StatusBadRequest, acme1_server [])"
  using put_undecodable_document [of decode_E2 "''not xml''" "acme1_server []" "''acme''"]
  by simp

text \<open>
  C10. When the store holds records under two different names with the same entity ID, a
  successful \<open>HandleDeleteService\<close> of one name removes the index entry of that entity ID:
  the lookup is "not exist" afterwards, although the record of the other name is still in
  the store.
\<close>

theorem delete_of_shared_entityID:
  assumes "n1 \<noteq> n2"
    and "map_of (objects (Store s)) (service_key n1) = Some (Encoded r1)"
    and "map_of (objects (Store s)) (service_key n2) = Some (Encoded r2)"
    and "EntityID (Metadata r1) = E" and "EntityID (Metadata r2) = E"
    and "HandleDeleteService s n1 = (StatusNoContent, s')"
  shows "GetServiceProvider s' E = Inl ErrNotExist
         \<and> map_of (objects (Store s')) (service_key n2) = Some (Encoded r2)"
  using HandleDeleteService_ok[OF assms(6)] assms(1-5)
  by (auto simp: GetServiceProvider_def service_key_inj)

theorem delete_of_shared_entityID_witness:
  "''a'' \<noteq> ''b''
   \<and> AddService (snd (AddService empty_server (Some svc_a))) (Some svc_b')
       = (None, \<lparr>Store = clash_store, serviceProviders = [''E1'' \<mapsto> md1']\<rparr>)
   \<and> map_of (objects clash_store) (service_key ''a'') = Some (Encoded svc_a)
   \<and> map_of (objects clash_store) (service_key ''b'') = Some (Encoded svc_b')
   \<and> EntityID (Metadata svc_a) = ''E1'' \<and> EntityID (Metadata svc_b') = ''E1''
   \<and> fst (HandleDeleteService \<lparr>Store = clash_store, serviceProviders = [''E1'' \<mapsto> md1']\<rparr> ''a'')
       = StatusNoContent
   \<and> GetServiceProvider
       (snd (HandleDeleteService \<lparr>Store = clash_store, serviceProviders = [''E1'' \<mapsto> md1']\<rparr> ''a''))
       ''E1'' = Inl ErrNotExist
   \<and> map_of (objects (Store
       (snd (HandleDeleteService \<lparr>Store = clash_store, serviceProviders = [''E1'' \<mapsto> md1']\<rparr> ''a''))))
       (service_key ''b'') = Some (Encoded svc_b')"
proof -
  let ?s = "\<lparr>Store = clash_store, serviceProviders = [''E1'' \<mapsto> md1']\<rparr>"
  have h0: "AddService (snd (AddService empty_server (Some svc_a))) (Some svc_b') = (None, ?s)"
    by (simp add: AddService_def Store_Put_def next_call_def service_key_def)
  have h1: "''a'' \<noteq> ''b''" by simp
  have h2: "map_of (objects (Store ?s)) (service_key ''a'') = Some (Encoded svc_a)"
    by (simp add: service_key_def)
  have h3: "map_of (objects (Store ?s)) (service_key ''b'') = Some (Encoded svc_b')"
    by (simp add: service_key_def)
  have h5: "fst (HandleDeleteService ?s ''a'') = StatusNoContent"
    by (simp add: HandleDeleteService_def Store_Get_def Store_Delete_def next_call_def
        service_key_def)
  then have h4: "HandleDeleteService ?s ''a'' = (StatusNoContent, snd (HandleDeleteService ?s ''a''))"
    by (simp add: prod_eq_iff)
  from delete_of_shared_entityID[OF h1 h2 h3 _ _ h4, of "''E1''"] h0 h1 h2 h3 h5 show ?thesis
    by simp
qed

end
